theory Spec2Isabelle
  imports Complex_Main "HOL-Library.Multiset" "HOL-Library.Stream"
begin

section \<open>Data sketches of the notebook \<open>S14F_Data_Sketches\<close>\<close>

text \<open>
  The notebook defines the class \<open>MorrisCounter\<close>, an ensemble \<open>mcs\<close> of ten such
  counters, and the function \<open>string_hash\<close>. The distinct-value sketch and the Bloom
  filter it demonstrates come from the packages \<open>hyperloglog\<close> and \<open>pybloom\<close>, whose
  code is not part of the repository.
\<close>

subsection \<open>Errors\<close>

text \<open>
  The exceptions that the modelled Python can raise, and the two failure conditions
  that the specification names for the sketches.
\<close>

datatype error = ZeroDivisionError | OverflowError | ConfigurationError | ConfigurationMismatch

subsection \<open>The random source\<close>

text \<open>
  \<open>random()\<close> reads a hidden global generator. The generator is made explicit as the
  stream of the values that the successive calls return: a call returns the head and
  leaves the tail. Every such value is a binary64 number in \<open>[0, 1)\<close>, taken here as the
  real number it denotes.
\<close>

type_synonym rng = "real stream"

definition random :: "rng \<Rightarrow> real \<times> rng" where
  "random rs = (shd rs, stl rs)"

subsection \<open>MorrisCounter\<close>

text \<open>
  \<^verbatim>\<open>
  class MorrisCounter:
      def __init__(self, c=0):
          self.c = c

      def __len__(self):
          return 2 ** self.c

      def add(self, item):
          self.c += random() < 1/(2**self.c)
  \<close>
  The exponent is a non-negative Python integer (it starts at 0 and is only ever
  incremented), hence a \<open>nat\<close>; \<open>2 ** self.c\<close> is an unbounded integer.
\<close>

record MorrisCounter =
  c :: nat

definition MorrisCounter_init :: "nat \<Rightarrow> MorrisCounter" where
  "MorrisCounter_init e = \<lparr>c = e\<rparr>"

text \<open>The default argument \<open>c=0\<close> of the constructor.\<close>

definition MorrisCounter_new :: MorrisCounter where
  "MorrisCounter_new = MorrisCounter_init 0"

text \<open>
  \<open>__len__\<close> returns a value and leaves the object as it is; the method is written in
  state-passing form, returning the value and the object.
\<close>

definition MorrisCounter_len :: "MorrisCounter \<Rightarrow> int \<times> MorrisCounter" where
  "MorrisCounter_len self = (2 ^ c self, self)"

text \<open>
  The value of the expression \<open>1/(2**self.c)\<close>. Python divides the two integers with
  correct rounding to binary64: the quotient \<open>2\<^sup>-\<^sup>e\<close> is representable (at the end as a
  subnormal number) up to \<open>e = 1074\<close>, and from \<open>e = 1075\<close> on the result is \<open>0.0\<close>.
  The comparison \<open>random() < ...\<close> of two binary64 numbers is exact.
\<close>

definition increment_threshold :: "nat \<Rightarrow> real" where
  "increment_threshold e = (if e \<le> 1074 then 1 / 2 ^ e else 0)"

text \<open>\<open>self.c += b\<close> with a Boolean \<open>b\<close> adds 1 for \<open>True\<close> and 0 for \<open>False\<close>.\<close>

definition MorrisCounter_add :: "MorrisCounter \<Rightarrow> 'item \<Rightarrow> rng \<Rightarrow> MorrisCounter \<times> rng" where
  "MorrisCounter_add self item rs =
     (let (u, rs') = random rs
      in (self\<lparr>c := c self + (if u < increment_threshold (c self) then 1 else 0)\<rparr>, rs'))"

text \<open>
  The loop of the notebook over the words,
  \<^verbatim>\<open>
  for i, word in enumerate(word_list):
      mc.add(word)
  \<close>
\<close>

fun add_words :: "MorrisCounter \<Rightarrow> 'item list \<Rightarrow> rng \<Rightarrow> MorrisCounter \<times> rng" where
  "add_words self [] rs = (self, rs)"
| "add_words self (word # ws) rs =
     (let (self', rs') = MorrisCounter_add self word rs in add_words self' ws rs')"

subsection \<open>The ensemble \<open>mcs\<close>\<close>




text \<open>
  The built-in \<open>len(m)\<close> calls \<open>m.__len__()\<close> and raises \<open>OverflowError\<close> when the result
  does not fit the index type, that is when it exceeds \<open>sys.maxsize = 2\<^sup>6\<^sup>3 - 1\<close>
  (64-bit CPython).
\<close>

definition maxsize :: int where
  "maxsize = 2 ^ 63 - 1"

definition builtin_len :: "MorrisCounter \<Rightarrow> error + int" where
  "builtin_len m = (let n = fst (MorrisCounter_len m) in if n \<le> maxsize then Inr n else Inl OverflowError)"




subsection \<open>\<open>string_hash\<close>\<close>

text \<open>
  \<^verbatim>\<open>
  def string_hash(word, n):
      return sum(ord(char) for char in word) % n
  \<close>
  A Python string is a sequence of Unicode code points and \<open>ord\<close> returns the code
  point of a character, so a string is the list of its code points. \<open>%\<close> raises
  \<open>ZeroDivisionError\<close> for a zero modulus; otherwise the result has the sign of the
  modulus, as \<open>mod\<close> on \<open>int\<close> has.
\<close>

type_synonym pystr = "nat list"

definition ord :: "nat \<Rightarrow> int" where
  "ord char = int char"

definition string_hash :: "pystr \<Rightarrow> int \<Rightarrow> error + int" where
  "string_hash word n =
     (if n = 0 then Inl ZeroDivisionError else Inr (sum_list (map ord word) mod n))"

text \<open>A string literal of ASCII characters as a Python string.\<close>

definition str :: "string \<Rightarrow> pystr" where
  "str s = map of_char s"

subsection \<open>MembershipFilter\<close>

text \<open>
  Modelled from the spec: the hash function \<open>hash(seed, item)\<close> of the MembershipFilter
  is that of the package \<open>pybloom\<close>, which is not in the repository. It is a parameter
  \<open>hash\<close> of every operation below, a function from a seed and an item to an unsigned
  integer.

  Modelled from the spec: the state of a MembershipFilter, missing with \<open>pybloom\<close>. It
  "holds a fixed-length bit vector of size \<open>k\<close> and a list of \<open>n\<close> independent hash
  seeds".
\<close>

record MembershipFilter =
  bits :: "bool list"
  seeds :: "nat list"

text \<open>
  Modelled from the spec: the constructor of the MembershipFilter, missing with
  \<open>pybloom\<close>, from the bit-vector size \<open>k\<close> and the seeds. Zero capacity "fails with a
  ConfigurationError at construction time, not at call time".
\<close>

definition MembershipFilter_new :: "nat \<Rightarrow> nat list \<Rightarrow> error + MembershipFilter" where
  "MembershipFilter_new k sds =
     (if k = 0 then Inl ConfigurationError else Inr \<lparr>bits = replicate k False, seeds = sds\<rparr>)"

text \<open>
  Modelled from the spec: the bit positions of an item, missing with \<open>pybloom\<close>: "for \<open>i\<close>
  in \<open>0..n\<close>, compute \<open>hash(seed_i, item) mod k\<close>".
\<close>

definition positions :: "(nat \<Rightarrow> 'item \<Rightarrow> nat) \<Rightarrow> MembershipFilter \<Rightarrow> 'item \<Rightarrow> nat list" where
  "positions hash f item = map (\<lambda>seed. hash seed item mod length (bits f)) (seeds f)"

text \<open>
  Modelled from the spec: \<open>add(item)\<close> of the MembershipFilter, missing with \<open>pybloom\<close>:
  at each position of the item, "set that bit to 1".
\<close>

definition MembershipFilter_add ::
  "(nat \<Rightarrow> 'item \<Rightarrow> nat) \<Rightarrow> MembershipFilter \<Rightarrow> 'item \<Rightarrow> MembershipFilter" where
  "MembershipFilter_add hash f item =
     f\<lparr>bits := fold (\<lambda>i bs. bs[i := True]) (positions hash f item) (bits f)\<rparr>"

text \<open>
  Modelled from the spec: \<open>contains(item)\<close> of the MembershipFilter, missing with
  \<open>pybloom\<close>: "compute the same bit position; if any is 0, return false; if all are 1,
  return true".
\<close>

definition MembershipFilter_contains ::
  "(nat \<Rightarrow> 'item \<Rightarrow> nat) \<Rightarrow> MembershipFilter \<Rightarrow> 'item \<Rightarrow> bool" where
  "MembershipFilter_contains hash f item = list_all (\<lambda>i. bits f ! i) (positions hash f item)"

text \<open>
  Modelled from the spec: a sequence of \<open>add\<close> calls on one MembershipFilter, as the
  caller's loop \<open>for word in word_set: sbf.add(word)\<close> makes them.
\<close>

fun MembershipFilter_add_all ::
  "(nat \<Rightarrow> 'item \<Rightarrow> nat) \<Rightarrow> MembershipFilter \<Rightarrow> 'item list \<Rightarrow> MembershipFilter" where
  "MembershipFilter_add_all hash f [] = f"
| "MembershipFilter_add_all hash f (item # items) =
     MembershipFilter_add_all hash (MembershipFilter_add hash f item) items"

text \<open>
  Modelled from the spec: the filters that the constructor can return, those of
  non-zero capacity.
\<close>

definition MembershipFilter_valid :: "MembershipFilter \<Rightarrow> bool" where
  "MembershipFilter_valid f = (0 < length (bits f))"

text \<open>
  Modelled from the spec: the state of the scalable variant (\<open>ScalableBloomFilter\<close> of
  \<open>pybloom\<close>, not in the repository), a chain of filters: the current one and the older
  ones, newest first.
\<close>

record ScalableFilter =
  current :: MembershipFilter
  older :: "MembershipFilter list"

text \<open>
  Modelled from the spec: the constructor of the scalable variant, missing with
  \<open>pybloom\<close>: a chain of one filter.
\<close>

definition ScalableFilter_new :: "nat \<Rightarrow> nat list \<Rightarrow> error + ScalableFilter" where
  "ScalableFilter_new k sds =
     (case MembershipFilter_new k sds of
        Inl e \<Rightarrow> Inl e
      | Inr f \<Rightarrow> Inr \<lparr>current = f, older = []\<rparr>)"

text \<open>
  Modelled from the spec: \<open>add\<close> of the scalable variant, missing with \<open>pybloom\<close>: "when
  the filter's estimated fill ratio crosses a threshold, allocate a new filter with
  adjusted \<open>n\<close>/\<open>k\<close> and chain it"; "\<open>add\<close> always inserts into the newest/current filter".
  The specification fixes neither the threshold nor the adjustment: \<open>full\<close> is the test
  that the fill ratio has crossed the threshold, and \<open>adjust\<close> gives the size and the
  seeds of the next filter. The allocation goes through the constructor and fails as
  the constructor does.
\<close>

definition ScalableFilter_add ::
  "(nat \<Rightarrow> 'item \<Rightarrow> nat) \<Rightarrow> (MembershipFilter \<Rightarrow> bool) \<Rightarrow>
   (MembershipFilter \<Rightarrow> nat \<times> nat list) \<Rightarrow> ScalableFilter \<Rightarrow> 'item \<Rightarrow> error + ScalableFilter" where
  "ScalableFilter_add hash full adjust s item =
     (if full (current s) then
        (case MembershipFilter_new (fst (adjust (current s))) (snd (adjust (current s))) of
           Inl e \<Rightarrow> Inl e
         | Inr f \<Rightarrow>
             Inr \<lparr>current = MembershipFilter_add hash f item, older = current s # older s\<rparr>)
      else Inr (s\<lparr>current := MembershipFilter_add hash (current s) item\<rparr>))"

text \<open>
  Modelled from the spec: \<open>contains\<close> of the scalable variant, missing with \<open>pybloom\<close>:
  "\<open>contains\<close> checks all chained filters (OR)".
\<close>

definition ScalableFilter_contains ::
  "(nat \<Rightarrow> 'item \<Rightarrow> nat) \<Rightarrow> ScalableFilter \<Rightarrow> 'item \<Rightarrow> bool" where
  "ScalableFilter_contains hash s item =
     (MembershipFilter_contains hash (current s) item \<or>
      list_ex (\<lambda>f. MembershipFilter_contains hash f item) (older s))"

text \<open>
  Modelled from the spec: a sequence of \<open>add\<close> calls on the scalable variant, as the
  caller's loop \<open>for word in word_set: sbf.add(word)\<close> makes them; a failure ends it.
\<close>

fun ScalableFilter_add_all ::
  "(nat \<Rightarrow> 'item \<Rightarrow> nat) \<Rightarrow> (MembershipFilter \<Rightarrow> bool) \<Rightarrow>
   (MembershipFilter \<Rightarrow> nat \<times> nat list) \<Rightarrow> ScalableFilter \<Rightarrow> 'item list \<Rightarrow> error + ScalableFilter" where
  "ScalableFilter_add_all hash full adjust s [] = Inr s"
| "ScalableFilter_add_all hash full adjust s (item # items) =
     (case ScalableFilter_add hash full adjust s item of
        Inl e \<Rightarrow> Inl e
      | Inr s' \<Rightarrow> ScalableFilter_add_all hash full adjust s' items)"

text \<open>
  Modelled from the spec: the chains whose filters all came from the constructor, that
  is, have non-zero capacity.
\<close>

definition ScalableFilter_valid :: "ScalableFilter \<Rightarrow> bool" where
  "ScalableFilter_valid s =
     (MembershipFilter_valid (current s) \<and> list_all MembershipFilter_valid (older s))"

subsection \<open>CardinalityEstimator\<close>

text \<open>
  Modelled from the spec: the state of a CardinalityEstimator (the class \<open>HyperLogLog\<close>
  of the package \<open>hyperloglog\<close>, not in the repository): "a fixed-size array of \<open>m\<close>
  small registers". The register count \<open>m\<close> is the length of the list.
\<close>

record CardinalityEstimator =
  registers :: "nat list"

text \<open>
  Modelled from the spec: \<open>merge(other)\<close>, missing with \<open>hyperloglog\<close> and never called
  by the notebook: it "requires identical \<open>m\<close>; produces a new estimator whose registers
  are the element-wise maximum of the two inputs", and "\<open>merge\<close> with mismatched register
  counts fails with a ConfigurationMismatch condition".
\<close>

definition CardinalityEstimator_merge ::
  "CardinalityEstimator \<Rightarrow> CardinalityEstimator \<Rightarrow> error + CardinalityEstimator" where
  "CardinalityEstimator_merge a b =
     (if length (registers a) \<noteq> length (registers b) then Inl ConfigurationMismatch
      else Inr \<lparr>registers = map2 max (registers a) (registers b)\<rparr>)"

section \<open>Properties of the Morris counter\<close>

subsection \<open>One call of \<open>add\<close>\<close>

lemma MorrisCounter_add_c:
  "c (fst (MorrisCounter_add self item rs)) =
     c self + (if shd rs < increment_threshold (c self) then 1 else 0)"
  by (simp add: MorrisCounter_add_def random_def)

lemma MorrisCounter_add_rng: "snd (MorrisCounter_add self item rs) = stl rs"
  by (simp add: MorrisCounter_add_def random_def)

lemma MorrisCounter_add_mono: "c self \<le> c (fst (MorrisCounter_add self item rs))"
  by (simp add: MorrisCounter_add_c)

text \<open>
  Claim C2, as stated, compares the draw with the real number \<open>1/2\<^sup>c\<close> in every state.
  In the state \<open>c = 1075\<close> with the draw \<open>0.0\<close> that comparison holds, but the quotient
  computed by the code is \<open>0.0\<close> and the exponent stays at 1075.
\<close>

theorem MorrisCounter_add_underflow_counterexample:
  "0 \<le> shd (sconst (0::real)) \<and> shd (sconst (0::real)) < 1 / 2 ^ 1075 \<and>
   c (fst (MorrisCounter_add (MorrisCounter_init 1075) (str ''the'') (sconst 0))) = 1075"
  by (simp add: MorrisCounter_add_def random_def MorrisCounter_init_def increment_threshold_def)

text \<open>
  Claim C2, amended: for a draw \<open>u \<ge> 0\<close>, one call of \<open>add\<close> takes exactly one value \<open>u\<close>
  from the generator; with \<open>c \<le> 1074\<close> it increments \<open>c\<close> by exactly 1 if \<open>u < 1/2\<^sup>c\<close> and
  leaves it unchanged otherwise, with \<open>c \<ge> 1075\<close> it leaves \<open>c\<close> unchanged; the exponent is
  the whole state of the counter, and \<open>__len__\<close> does not change it.
\<close>

theorem MorrisCounter_add_spec:
  assumes "0 \<le> shd rs"
  shows "MorrisCounter_add self item rs =
           (self\<lparr>c := (if c self \<le> 1074 \<and> shd rs < 1 / 2 ^ c self then c self + 1 else c self)\<rparr>,
            stl rs)
         \<and> snd (MorrisCounter_len self) = self"
  using assms
  by (simp add: MorrisCounter_add_def random_def increment_threshold_def MorrisCounter_len_def)

theorem MorrisCounter_add_spec_witness:
  "0 \<le> shd (sconst (1 / 10 :: real)) \<and>
   MorrisCounter_add (MorrisCounter_init 3) (str ''the'') (sconst (1 / 10)) =
     (MorrisCounter_init 4, sconst (1 / 10)) \<and>
   MorrisCounter_add (MorrisCounter_init 4) (str ''the'') (sconst (1 / 10)) =
     (MorrisCounter_init 4, sconst (1 / 10))"
  using MorrisCounter_add_spec [of "sconst (1 / 10)" "MorrisCounter_init 3" "str ''the''"]
    MorrisCounter_add_spec [of "sconst (1 / 10)" "MorrisCounter_init 4" "str ''the''"]
  by (simp add: MorrisCounter_init_def)

subsection \<open>Reading the estimate\<close>

text \<open>
  Claim C3, as stated, lets the estimate be \<open>2\<^sup>c\<close> in every reachable state. The
  notebook reads the estimate as \<open>len(mc)\<close>. A fresh counter fed 63 words, every draw
  being \<open>0.0\<close>, reaches \<open>c = 63\<close>; there \<open>__len__\<close> returns \<open>2\<^sup>6\<^sup>3\<close>, which exceeds
  \<open>sys.maxsize\<close>, and \<open>len(mc)\<close> raises \<open>OverflowError\<close> instead of returning a value.
\<close>

theorem MorrisCounter_len_overflow_counterexample:
  "c (fst (add_words MorrisCounter_new (replicate 63 (str ''the'')) (sconst 0))) = 63 \<and>
   builtin_len (fst (add_words MorrisCounter_new (replicate 63 (str ''the'')) (sconst 0)))
     = Inl OverflowError"
  by (simp add: MorrisCounter_new_def MorrisCounter_init_def MorrisCounter_add_def random_def
      increment_threshold_def builtin_len_def MorrisCounter_len_def maxsize_def eval_nat_numeral)

text \<open>
  Claim C3, amended: in every state the method \<open>__len__\<close> computes exactly \<open>2\<^sup>c\<close> and
  leaves the counter as it is; the estimate read as \<open>len(mc)\<close> is exactly \<open>2\<^sup>c\<close> while
  \<open>c \<le> 62\<close>, and from \<open>c = 63\<close> on \<open>len(mc)\<close> raises \<open>OverflowError\<close>.
\<close>

theorem MorrisCounter_estimate_spec:
  "fst (MorrisCounter_len self) = 2 ^ c self \<and> snd (MorrisCounter_len self) = self \<and>
   builtin_len self = (if c self \<le> 62 then Inr (2 ^ c self) else Inl OverflowError)"
proof (cases "c self \<le> 62")
  case True
  then have "(2::int) ^ c self \<le> 2 ^ 62"
    by (intro power_increasing) simp_all
  then show ?thesis
    using True by (simp add: builtin_len_def MorrisCounter_len_def maxsize_def)
next
  case False
  then have "63 \<le> c self"
    by simp
  then have "(2::int) ^ 63 \<le> 2 ^ c self"
    by (intro power_increasing) simp_all
  then show ?thesis
    using False by (simp add: builtin_len_def MorrisCounter_len_def maxsize_def)
qed

theorem MorrisCounter_estimate_spec_witness:
  "builtin_len (MorrisCounter_init 17) = Inr 131072 \<and>
   MorrisCounter_len (MorrisCounter_init 17) = (131072, MorrisCounter_init 17) \<and>
   builtin_len (MorrisCounter_init 62) = Inr 4611686018427387904 \<and>
   builtin_len (MorrisCounter_init 63) = Inl OverflowError"
  using MorrisCounter_estimate_spec [of "MorrisCounter_init 17"]
    MorrisCounter_estimate_spec [of "MorrisCounter_init 62"]
    MorrisCounter_estimate_spec [of "MorrisCounter_init 63"]
  by (simp add: MorrisCounter_init_def prod_eq_iff)

subsection \<open>Sequences of calls\<close>

lemma add_words_mono: "c self \<le> c (fst (add_words self ws rs))"
proof (induction ws arbitrary: self rs)
  case Nil
  show ?case by simp
next
  case (Cons w ws)
  obtain s' rs' where st: "MorrisCounter_add self w rs = (s', rs')"
    by (cases "MorrisCounter_add self w rs")
  have "c self \<le> c s'"
    using MorrisCounter_add_mono [of self w rs] st by simp
  also have "c s' \<le> c (fst (add_words s' ws rs'))"
    by (rule Cons.IH)
  finally show ?case using st by simp
qed

lemma add_words_append:
  "add_words self (ws @ vs) rs = (let (s', rs') = add_words self ws rs in add_words s' vs rs')"
  by (induction ws arbitrary: self rs) (simp_all split: prod.splits)

lemma add_words_rng: "snd (add_words self ws rs) = sdrop (length ws) rs"
  by (induction ws arbitrary: self rs)
     (simp_all add: MorrisCounter_add_def random_def split: prod.splits)

text \<open>
  Claim C4: the exponent never decreases. One call of \<open>add\<close> gives an exponent at least
  as large as before, whatever the draw; along any sequence of calls the exponent after
  \<open>i\<close> calls is at most the exponent after \<open>i + d\<close> calls, and so is the value of
  \<open>__len__\<close>.
\<close>

theorem MorrisCounter_exponent_monotone:
  "c self \<le> c (fst (MorrisCounter_add self item rs)) \<and>
   c (fst (add_words self (take i ws) rs)) \<le> c (fst (add_words self (take (i + d) ws) rs)) \<and>
   fst (MorrisCounter_len (fst (add_words self (take i ws) rs)))
     \<le> fst (MorrisCounter_len (fst (add_words self (take (i + d) ws) rs)))"
proof -
  have parts: "take (i + d) ws = take i ws @ take d (drop i ws)"
    by (simp add: take_add)
  obtain s' rs' where st: "add_words self (take i ws) rs = (s', rs')"
    by (cases "add_words self (take i ws) rs")
  have mono: "c (fst (add_words self (take i ws) rs)) \<le> c (fst (add_words self (take (i + d) ws) rs))"
    unfolding parts add_words_append
    using st add_words_mono [of s' "take d (drop i ws)" rs'] by simp
  show ?thesis
    using mono MorrisCounter_add_mono [of self item rs] by (simp add: MorrisCounter_len_def)
qed

text \<open>
  Claim C8: the item does not influence \<open>add\<close>. From the same counter and the same
  generator state, adding an item \<open>x\<close> and adding an item \<open>y\<close> give the same counter
  (and the same generator state).
\<close>

theorem MorrisCounter_add_item_independent:
  "MorrisCounter_add self x rs = MorrisCounter_add self y rs"
  by (simp add: MorrisCounter_add_def)

text \<open>
  Claim C9: on a fresh counter (\<open>c = 0\<close>) the first \<open>add\<close> sets \<open>c\<close> to 1 for every draw
  below 1, and \<open>__len__\<close> then returns exactly 2.
\<close>

theorem MorrisCounter_first_add:
  assumes "shd rs < 1"
  shows "c (fst (MorrisCounter_add MorrisCounter_new item rs)) = 1 \<and>
         fst (MorrisCounter_len (fst (MorrisCounter_add MorrisCounter_new item rs))) = 2"
  using assms
  by (simp add: MorrisCounter_add_def random_def increment_threshold_def MorrisCounter_new_def
      MorrisCounter_init_def MorrisCounter_len_def)

theorem MorrisCounter_first_add_witness:
  "shd (sconst (999 / 1000 :: real)) < 1 \<and>
   c (fst (MorrisCounter_add MorrisCounter_new (str ''Stately'') (sconst (999 / 1000)))) = 1 \<and>
   fst (MorrisCounter_len (fst (MorrisCounter_add MorrisCounter_new (str ''Stately'')
     (sconst (999 / 1000))))) = 2"
  using MorrisCounter_first_add [of "sconst (999 / 1000)" "str ''Stately''"]
  by simp

section \<open>Properties of the ensemble\<close>









section \<open>Properties of \<open>string_hash\<close>\<close>

text \<open>The values that the notebook prints for the words of its sentence, modulus 10.\<close>

lemma string_hash_notebook_output:
  "map (\<lambda>w. string_hash (str w) 10)
     [''The'', ''quick'', ''brown'', ''fox'', ''jumps'', ''over'', ''the'', ''lazy'', ''dog.'']
   = map Inr [9, 1, 2, 3, 9, 4, 1, 8, 0]"
  by (simp add: string_hash_def str_def ord_def)




text \<open>
  Claim C10: \<open>string_hash\<close> depends only on the multiset of the characters of the word.
  Two words with the same characters in any order have the same hash for every modulus
  (with the modulus 0 both calls raise \<open>ZeroDivisionError\<close>).
\<close>

theorem string_hash_permutation:
  assumes "mset w = mset w'"
  shows "string_hash w n = string_hash w' n"
proof -
  have "sum_list (map ord w) = sum_mset (image_mset ord (mset w))"
    by (metis mset_map sum_mset_sum_list)
  also have "\<dots> = sum_mset (image_mset ord (mset w'))"
    using assms by simp
  also have "\<dots> = sum_list (map ord w')"
    by (metis mset_map sum_mset_sum_list)
  finally show ?thesis
    by (simp add: string_hash_def)
qed

theorem string_hash_permutation_witness:
  "mset (str ''dog'') = mset (str ''god'') \<and>
   string_hash (str ''dog'') 7 = string_hash (str ''god'') 7 \<and>
   string_hash (str ''dog'') 7 = Inr 6"
proof -
  have h: "mset (str ''dog'') = mset (str ''god'')"
    by (simp add: str_def)
  show ?thesis
    using h string_hash_permutation [OF h, of 7]
    by (simp add: string_hash_def str_def ord_def)
qed

section \<open>Properties of the MembershipFilter\<close>

subsection \<open>One filter\<close>

lemma set_bits_length: "length (fold (\<lambda>i bs. bs[i := True]) is bs) = length bs"
  by (induction "is" arbitrary: bs) simp_all

lemma set_bits_nth:
  "j < length bs \<Longrightarrow> fold (\<lambda>i bs. bs[i := True]) is bs ! j = (bs ! j \<or> j \<in> set is)"
proof (induction "is" arbitrary: bs)
  case Nil
  show ?case by simp
next
  case (Cons i "is")
  have len: "j < length (bs[i := True])"
    using Cons.prems by simp
  have "fold (\<lambda>i bs. bs[i := True]) (i # is) bs ! j = (bs[i := True] ! j \<or> j \<in> set is)"
    using Cons.IH [OF len] by simp
  also have "bs[i := True] ! j = (bs ! j \<or> j = i)"
    using Cons.prems by (cases "i = j") simp_all
  finally show ?case by auto
qed

lemma positions_bound:
  "MembershipFilter_valid f \<Longrightarrow> i \<in> set (positions hash f item) \<Longrightarrow> i < length (bits f)"
  by (auto simp: positions_def MembershipFilter_valid_def)

lemma MembershipFilter_add_valid:
  "MembershipFilter_valid (MembershipFilter_add hash f item) = MembershipFilter_valid f"
  by (simp add: MembershipFilter_valid_def MembershipFilter_add_def set_bits_length)

lemma positions_add:
  "positions hash (MembershipFilter_add hash f y) item = positions hash f item"
  by (simp add: positions_def MembershipFilter_add_def set_bits_length)

lemma contains_after_add:
  assumes "MembershipFilter_valid f"
  shows "MembershipFilter_contains hash (MembershipFilter_add hash f item) item"
proof -
  have "bits (MembershipFilter_add hash f item) ! i" if "i \<in> set (positions hash f item)" for i
  proof -
    have "i < length (bits f)"
      using assms that by (rule positions_bound)
    then show ?thesis
      using that by (simp add: MembershipFilter_add_def set_bits_nth)
  qed
  then show ?thesis
    by (simp add: MembershipFilter_contains_def positions_add list_all_iff)
qed

lemma contains_preserved:
  assumes "MembershipFilter_valid f" and "MembershipFilter_contains hash f item"
  shows "MembershipFilter_contains hash (MembershipFilter_add hash f y) item"
proof -
  have "bits (MembershipFilter_add hash f y) ! i" if "i \<in> set (positions hash f item)" for i
  proof -
    have "i < length (bits f)"
      using assms(1) that by (rule positions_bound)
    moreover have "bits f ! i"
      using assms(2) that by (simp add: MembershipFilter_contains_def list_all_iff)
    ultimately show ?thesis
      by (simp add: MembershipFilter_add_def set_bits_nth)
  qed
  then show ?thesis
    by (simp add: MembershipFilter_contains_def positions_add list_all_iff)
qed

lemma add_all_preserved:
  "MembershipFilter_valid f \<Longrightarrow> MembershipFilter_contains hash f item \<Longrightarrow>
   MembershipFilter_contains hash (MembershipFilter_add_all hash f ys) item"
  by (induction ys arbitrary: f) (simp_all add: contains_preserved MembershipFilter_add_valid)

lemma MembershipFilter_new_valid:
  "MembershipFilter_new k sds = Inr f \<Longrightarrow> MembershipFilter_valid f"
  by (auto simp: MembershipFilter_new_def MembershipFilter_valid_def split: if_splits)

subsection \<open>The chain of filters\<close>

lemma ScalableFilter_new_valid: "ScalableFilter_new k sds = Inr s \<Longrightarrow> ScalableFilter_valid s"
  by (auto simp: ScalableFilter_new_def ScalableFilter_valid_def split: sum.splits
      dest: MembershipFilter_new_valid)

text \<open>
  One \<open>add\<close> on a valid chain returns a valid chain that contains the item and every
  item the chain contained before.
\<close>

lemma ScalableFilter_add_returns:
  assumes "ScalableFilter_valid s" and "\<forall>f. MembershipFilter_valid f \<longrightarrow> 0 < fst (adjust f)"
  shows "\<exists>s'. ScalableFilter_add hash full adjust s item = Inr s' \<and> ScalableFilter_valid s' \<and>
           ScalableFilter_contains hash s' item \<and>
           (\<forall>x. ScalableFilter_contains hash s x \<longrightarrow> ScalableFilter_contains hash s' x)"
proof (cases "full (current s)")
  case False
  let ?s' = "s\<lparr>current := MembershipFilter_add hash (current s) item\<rparr>"
  have v: "MembershipFilter_valid (current s)"
    using assms(1) by (simp add: ScalableFilter_valid_def)
  have "ScalableFilter_add hash full adjust s item = Inr ?s'"
    using False by (simp add: ScalableFilter_add_def)
  moreover have "ScalableFilter_valid ?s'"
    using assms(1) by (simp add: ScalableFilter_valid_def MembershipFilter_add_valid)
  moreover have "ScalableFilter_contains hash ?s' item"
    using v by (simp add: ScalableFilter_contains_def contains_after_add)
  moreover have "ScalableFilter_contains hash ?s' x" if "ScalableFilter_contains hash s x" for x
    using that v by (auto simp: ScalableFilter_contains_def contains_preserved)
  ultimately show ?thesis by blast
next
  case True
  define k where "k = fst (adjust (current s))"
  define f where "f = \<lparr>bits = replicate k False, seeds = snd (adjust (current s))\<rparr>"
  let ?s' = "\<lparr>current = MembershipFilter_add hash f item, older = current s # older s\<rparr>"
  have v: "MembershipFilter_valid (current s)"
    using assms(1) by (simp add: ScalableFilter_valid_def)
  then have "0 < k"
    unfolding k_def using assms(2) by blast
  then have new: "MembershipFilter_new (fst (adjust (current s))) (snd (adjust (current s))) = Inr f"
    by (simp add: MembershipFilter_new_def k_def f_def)
  have vf: "MembershipFilter_valid f"
    using new by (rule MembershipFilter_new_valid)
  have "ScalableFilter_add hash full adjust s item = Inr ?s'"
    using True new by (simp add: ScalableFilter_add_def)
  moreover have "ScalableFilter_valid ?s'"
    using assms(1) vf by (simp add: ScalableFilter_valid_def MembershipFilter_add_valid)
  moreover have "ScalableFilter_contains hash ?s' item"
    using vf by (simp add: ScalableFilter_contains_def contains_after_add)
  moreover have "ScalableFilter_contains hash ?s' x" if "ScalableFilter_contains hash s x" for x
    using that by (auto simp: ScalableFilter_contains_def)
  ultimately show ?thesis by blast
qed

lemma ScalableFilter_add_all_preserved:
  assumes "\<forall>f. MembershipFilter_valid f \<longrightarrow> 0 < fst (adjust f)"
  shows "ScalableFilter_valid s \<Longrightarrow> ScalableFilter_contains hash s x \<Longrightarrow>
         \<exists>s'. ScalableFilter_add_all hash full adjust s ys = Inr s' \<and> ScalableFilter_valid s' \<and>
           ScalableFilter_contains hash s' x"
proof (induction ys arbitrary: s)
  case Nil
  then show ?case by simp
next
  case (Cons y ys)
  obtain s1 where s1: "ScalableFilter_add hash full adjust s y = Inr s1"
      "ScalableFilter_valid s1" "ScalableFilter_contains hash s1 x"
    using ScalableFilter_add_returns [OF Cons.prems(1) assms,
        where hash = hash and full = full and item = y] Cons.prems(2)
    by blast
  from Cons.IH [OF s1(2) s1(3)] show ?case
    using s1(1) by simp
qed

text \<open>
  Claim C1: no false negative. On a chain of filters of non-zero capacity, with an
  adjustment that gives every new filter a non-zero capacity, \<open>add(x)\<close> followed by any
  number of further \<open>add\<close> calls returns a chain, and that chain contains \<open>x\<close> (with no
  further call: immediately after \<open>add(x)\<close>). The same holds for a single filter that
  never scales.
\<close>

theorem MembershipFilter_no_false_negative:
  assumes "ScalableFilter_valid s" and "\<forall>f. MembershipFilter_valid f \<longrightarrow> 0 < fst (adjust f)"
  shows "(\<exists>s'. ScalableFilter_add_all hash full adjust s (x # ys) = Inr s' \<and>
            ScalableFilter_contains hash s' x) \<and>
         MembershipFilter_contains hash (MembershipFilter_add_all hash (current s) (x # ys)) x"
proof -
  obtain s1 where s1: "ScalableFilter_add hash full adjust s x = Inr s1"
      "ScalableFilter_valid s1" "ScalableFilter_contains hash s1 x"
    using ScalableFilter_add_returns [OF assms, where hash = hash and full = full and item = x]
    by blast
  have chain: "\<exists>s'. ScalableFilter_add_all hash full adjust s (x # ys) = Inr s' \<and>
      ScalableFilter_contains hash s' x"
    using ScalableFilter_add_all_preserved [OF assms(2) s1(2) s1(3),
        where full = full and ys = ys] s1(1)
    by auto
  have v: "MembershipFilter_valid (current s)"
    using assms(1) by (simp add: ScalableFilter_valid_def)
  have "MembershipFilter_contains hash
      (MembershipFilter_add_all hash (MembershipFilter_add hash (current s) x) ys) x"
    using v by (intro add_all_preserved) (simp_all add: MembershipFilter_add_valid contains_after_add)
  with chain show ?thesis by simp
qed

theorem MembershipFilter_no_false_negative_witness:
  "ScalableFilter_new 100 [1, 2, 3] =
     Inr \<lparr>current = \<lparr>bits = replicate 100 False, seeds = [1, 2, 3]\<rparr>, older = []\<rparr> \<and>
   ScalableFilter_valid
     \<lparr>current = \<lparr>bits = replicate 100 False, seeds = [1, 2, 3]\<rparr>, older = []\<rparr> \<and>
   (\<exists>s'. ScalableFilter_add_all (\<lambda>seed item. seed * 31 + sum_list item)
            (\<lambda>f. length (bits f) < 2 * length (filter id (bits f)))
            (\<lambda>f. (2 * length (bits f), seeds f))
            \<lparr>current = \<lparr>bits = replicate 100 False, seeds = [1, 2, 3]\<rparr>, older = []\<rparr>
            [str ''banana'', str ''artist'', str ''Dublin''] = Inr s' \<and>
          ScalableFilter_contains (\<lambda>seed item. seed * 31 + sum_list item) s' (str ''banana''))"
proof -
  let ?s = "\<lparr>current = \<lparr>bits = replicate 100 False, seeds = [1, 2, 3]\<rparr>, older = []\<rparr>"
  let ?adjust = "\<lambda>f. (2 * length (bits f), seeds f)"
  have new: "ScalableFilter_new 100 [1, 2, 3] = Inr ?s"
    by (simp add: ScalableFilter_new_def MembershipFilter_new_def)
  have valid: "ScalableFilter_valid ?s"
    by (simp add: ScalableFilter_valid_def MembershipFilter_valid_def)
  have grows: "\<forall>f. MembershipFilter_valid f \<longrightarrow> 0 < fst (?adjust f)"
    by (simp add: MembershipFilter_valid_def)
  show ?thesis
    using new valid MembershipFilter_no_false_negative [OF valid grows,
        where hash = "\<lambda>seed item. seed * 31 + sum_list item"
          and full = "\<lambda>f. length (bits f) < 2 * length (filter id (bits f))"
          and x = "str ''banana''" and ys = "[str ''artist'', str ''Dublin'']"]
    by blast
qed

section \<open>Properties of the CardinalityEstimator\<close>

lemma map2_max_same: "map2 max xs xs = (xs :: nat list)"
  by (induction xs) simp_all

lemma map2_max_commute: "map2 max xs ys = map2 max ys (xs :: nat list)"
  by (rule nth_equalityI) (simp_all add: max.commute)

lemma map2_max_assoc:
  "map2 max (map2 max xs ys) zs = map2 max xs (map2 max ys (zs :: nat list))"
  by (rule nth_equalityI) (simp_all add: max.assoc)

lemma registers_eta: "\<lparr>registers = registers A\<rparr> = A"
  by simp

text \<open>
  Claim C5: for estimators \<open>A\<close>, \<open>B\<close>, \<open>D\<close> with the same register count, \<open>merge\<close> is
  idempotent (\<open>merge(A, A) = A\<close>, hence any estimate computed from the merged estimator
  is the estimate of \<open>A\<close>), commutative, and associative.
\<close>

theorem CardinalityEstimator_merge_laws:
  assumes "length (registers A) = length (registers B)"
    and "length (registers B) = length (registers D)"
  shows "CardinalityEstimator_merge A A = Inr A \<and>
         map_sum id estimate (CardinalityEstimator_merge A A) = Inr (estimate A) \<and>
         CardinalityEstimator_merge A B = CardinalityEstimator_merge B A \<and>
         (case CardinalityEstimator_merge A B of
            Inl e \<Rightarrow> Inl e
          | Inr AB \<Rightarrow> CardinalityEstimator_merge AB D)
         = (case CardinalityEstimator_merge B D of
              Inl e \<Rightarrow> Inl e
            | Inr BD \<Rightarrow> CardinalityEstimator_merge A BD)"
  using assms
  by (simp add: CardinalityEstimator_merge_def map2_max_same map2_max_assoc
      map2_max_commute [of "registers A"] registers_eta)

theorem CardinalityEstimator_merge_laws_witness:
  "length (registers \<lparr>registers = [1, 0, 3, 2]\<rparr>) =
     length (registers \<lparr>registers = [0, 2, 1, 5]\<rparr>) \<and>
   length (registers \<lparr>registers = [0, 2, 1, 5]\<rparr>) =
     length (registers \<lparr>registers = [4, 0, 0, 1]\<rparr>) \<and>
   CardinalityEstimator_merge \<lparr>registers = [1, 0, 3, 2]\<rparr> \<lparr>registers = [1, 0, 3, 2]\<rparr>
     = Inr \<lparr>registers = [1, 0, 3, 2]\<rparr> \<and>
   CardinalityEstimator_merge \<lparr>registers = [1, 0, 3, 2]\<rparr> \<lparr>registers = [0, 2, 1, 5]\<rparr>
     = CardinalityEstimator_merge \<lparr>registers = [0, 2, 1, 5]\<rparr> \<lparr>registers = [1, 0, 3, 2]\<rparr> \<and>
   CardinalityEstimator_merge \<lparr>registers = [1, 0, 3, 2]\<rparr> \<lparr>registers = [0, 2, 1, 5]\<rparr>
     = Inr \<lparr>registers = [1, 2, 3, 5]\<rparr>"
  using CardinalityEstimator_merge_laws [of "\<lparr>registers = [1, 0, 3, 2]\<rparr>"
      "\<lparr>registers = [0, 2, 1, 5]\<rparr>" "\<lparr>registers = [4, 0, 0, 1]\<rparr>" id]
  by (simp add: CardinalityEstimator_merge_def)

end
